theory Spec2Isabelle
  imports Main "HOL-Library.AList"
begin

section \<open>RDF terms and graphs (the part of rdflib the projection layer relies on)\<close>

text \<open>
  An RDF term is a URI reference, a blank node or a literal. In rdflib all three are
  subclasses of Python's \<open>str\<close>: \<open>str(t)\<close> is the identifier string, respectively the
  lexical form. Two terms are equal only when they are of the same class and carry the
  same string. A literal's truth value (\<open>if label:\<close>) is the truth value of its Python
  value, which depends on its datatype; the second argument of \<open>Literal\<close> records it.
  A URI reference or blank node is true exactly when its string is not empty. A
  literal's datatype and language tag are left out: no function below reads them.
\<close>

datatype rdf_term = URIRef string | BNode string | Literal string bool

fun str :: "rdf_term \<Rightarrow> string" where
  "str (URIRef u) = u"
| "str (BNode b) = b"
| "str (Literal l v) = l"

fun is_URIRef :: "rdf_term \<Rightarrow> bool" where
  "is_URIRef (URIRef u) = True"
| "is_URIRef (BNode b) = False"
| "is_URIRef (Literal l v) = False"

fun truthy :: "rdf_term \<Rightarrow> bool" where
  "truthy (URIRef u) = (u \<noteq> [])"
| "truthy (BNode b) = (b \<noteq> [])"
| "truthy (Literal l v) = v"

type_synonym triple = "rdf_term \<times> rdf_term \<times> rdf_term"

datatype error = ValueError | KeyError | OtherException

text \<open>
  A graph is its triples, listed in the order in which the store enumerates them (the
  order is not specified by rdflib; every function below works for any order), together
  with the two operations of its namespace manager that the source calls:
  \<open>node.n3(g.namespace_manager)\<close> and \<open>g.namespace_manager.qname(p)\<close>. Both belong to
  rdflib and are taken as parameters; either may raise, which is the value \<open>Inl\<close>.
  Within one call of a projector or of the exporter every \<open>n3\<close> call precedes every
  \<open>qname\<close> call, and \<open>qname\<close> caches its result per URI, so one function per operation
  describes a whole call.
\<close>

record graph =
  triples :: "triple list"
  n3 :: "rdf_term \<Rightarrow> error + string"
  qname :: "rdf_term \<Rightarrow> error + string"

definition RDF_type :: rdf_term where
  "RDF_type = URIRef ''http://www.w3.org/1999/02/22-rdf-syntax-ns#type''"

definition RDFS_label :: rdf_term where
  "RDFS_label = URIRef ''http://www.w3.org/2000/01/rdf-schema#label''"

definition EX_ns :: "string \<Rightarrow> rdf_term" where
  "EX_ns name = URIRef (''http://example.com/ontology/'' @ name)"

definition objects :: "graph \<Rightarrow> rdf_term \<Rightarrow> rdf_term \<Rightarrow> rdf_term list" where
  "objects g s p = [ob. (s', p', ob) \<leftarrow> triples g, s' = s \<and> p' = p]"

definition subjects :: "graph \<Rightarrow> rdf_term \<Rightarrow> rdf_term \<Rightarrow> rdf_term list" where
  "subjects g p ob = [s. (s, p', ob') \<leftarrow> triples g, p' = p \<and> ob' = ob]"

text \<open>\<open>g.value(subject=s, predicate=p)\<close>: the first object found, or \<open>None\<close>.\<close>

definition graph_value :: "graph \<Rightarrow> rdf_term \<Rightarrow> rdf_term \<Rightarrow> rdf_term option" where
  "graph_value g s p = (case objects g s p of [] \<Rightarrow> None | x # xs \<Rightarrow> Some x)"

text \<open>\<open>(uri, None, None) in g\<close>: some triple has the subject \<open>uri\<close>.\<close>

definition has_subject :: "graph \<Rightarrow> rdf_term \<Rightarrow> bool" where
  "has_subject g u = (u \<in> set (map fst (triples g)))"

section \<open>Python containers and strings\<close>

text \<open>
  A Python \<open>set\<close> is kept as a list without repetitions, in order of first insertion
  (Python's own iteration order is unspecified).
\<close>

definition set_add :: "'a \<Rightarrow> 'a list \<Rightarrow> 'a list" where
  "set_add x xs = (if x \<in> set xs then xs else xs @ [x])"

definition py_set :: "'a list \<Rightarrow> 'a list" where
  "py_set xs = foldl (\<lambda>acc x. set_add x acc) [] xs"

text \<open>
  A \<open>dict\<close> is an association list in insertion order; \<open>d[k] = v\<close> is
  \<^const>\<open>AList.update\<close>, \<open>d.get(k)\<close> is \<^const>\<open>map_of\<close>, and \<open>d.update(e)\<close> stores the
  entries of \<open>e\<close> one after the other.
\<close>

definition dict_update :: "('k \<times> 'v) list \<Rightarrow> ('k \<times> 'v) list \<Rightarrow> ('k \<times> 'v) list" where
  "dict_update d e = foldl (\<lambda>acc (k, v). AList.update k v acc) d e"

text \<open>\<open>s.split(c)\<close> for a one-character separator; the result is never empty.\<close>

fun split_sep :: "char \<Rightarrow> string \<Rightarrow> string list" where
  "split_sep c [] = [[]]"
| "split_sep c (x # xs) =
     (if x = c then [] # split_sep c xs
      else (case split_sep c xs of
              [] \<Rightarrow> [[x]]
            | w # ws \<Rightarrow> (x # w) # ws))"

text \<open>\<open>s.replace(old, new)\<close> for one-character \<open>old\<close> and \<open>new\<close>.\<close>

definition replace_char :: "char \<Rightarrow> char \<Rightarrow> string \<Rightarrow> string" where
  "replace_char old new s = map (\<lambda>c. if c = old then new else c) s"

text \<open>
  \<open>s.upper()\<close> on the ASCII range: \<open>a\<close>..\<open>z\<close> become \<open>A\<close>..\<open>Z\<close>, every other byte
  stays. (HOL characters are bytes; Python's mapping of letters beyond ASCII is not
  modelled.)
\<close>

definition upper_char :: "char \<Rightarrow> char" where
  "upper_char c =
     (let n = (of_char c :: nat) in if 97 \<le> n \<and> n \<le> 122 then char_of (n - 32) else c)"

definition upper :: "string \<Rightarrow> string" where
  "upper s = map upper_char s"

definition startswith_lt :: "string \<Rightarrow> bool" where
  "startswith_lt s = (case s of [] \<Rightarrow> False | c # cs \<Rightarrow> c = CHR ''<'')"

section \<open>Label resolution\<close>

subsection \<open>\<open>rdf_utils.get_node_label\<close> and \<open>rdf_utils.get_type_label\<close> (used by the exporter)\<close>

definition get_node_label :: "graph \<Rightarrow> rdf_term \<Rightarrow> string" where
  "get_node_label g node =
     (if \<not> is_URIRef node then str node
      else
        (case (case graph_value g node RDFS_label of
                 None \<Rightarrow> None
               | Some label \<Rightarrow> if truthy label then Some (str label) else None) of
           Some l \<Rightarrow> l
         | None \<Rightarrow>
             (case (case n3 g node of
                      Inl e \<Rightarrow> None
                    | Inr q \<Rightarrow> if \<not> startswith_lt q then Some q else None) of
                Some q \<Rightarrow> q
              | None \<Rightarrow> last (split_sep CHR ''/'' (str node)))))"

definition get_type_label :: "graph \<Rightarrow> rdf_term \<Rightarrow> string" where
  "get_type_label g node =
     (case graph_value g node RDF_type of
        None \<Rightarrow> ''Resource''
      | Some node_type \<Rightarrow>
          if truthy node_type \<and> is_URIRef node_type then get_node_label g node_type
          else ''Resource'')"

subsection \<open>\<open>nx_convert.get_label\<close> and \<open>nx_convert.get_type_label\<close> (used by the projectors)\<close>

text \<open>
  Each body is wrapped in \<open>try ... except Exception\<close>; the only call that can raise is
  \<open>n3\<close>, and then \<open>get_label\<close> returns \<open>str(node)\<close>.
\<close>

definition get_label :: "graph \<Rightarrow> rdf_term \<Rightarrow> string" where
  "get_label g node =
     (case (case graph_value g node RDFS_label of
              None \<Rightarrow> None
            | Some label \<Rightarrow> if truthy label then Some (str label) else None) of
        Some l \<Rightarrow> l
      | None \<Rightarrow> (case n3 g node of Inl e \<Rightarrow> str node | Inr q \<Rightarrow> q))"

definition nx_get_type_label :: "graph \<Rightarrow> rdf_term \<Rightarrow> string" where
  "nx_get_type_label g node =
     (case graph_value g node RDF_type of
        None \<Rightarrow> ''Resource''
      | Some node_type \<Rightarrow> if truthy node_type then get_label g node_type else ''Resource'')"

section \<open>The networkx graph\<close>

text \<open>
  \<open>nx.Graph\<close> keeps two dictionaries: \<open>_node\<close> from node to attribute dictionary and
  \<open>_adj\<close> from node to the dictionary of its neighbours, each with the edge's attribute
  dictionary; an undirected edge is stored in both directions.
\<close>

datatype attr = S string | I int

type_synonym attrs = "(string \<times> attr) list"

record nx_graph =
  nx_node :: "(string \<times> attrs) list"
  nx_adj :: "(string \<times> (string \<times> attrs) list) list"

definition nx_empty :: nx_graph where
  "nx_empty = \<lparr>nx_node = [], nx_adj = []\<rparr>"

definition add_node :: "string \<Rightarrow> attrs \<Rightarrow> nx_graph \<Rightarrow> nx_graph" where
  "add_node n attr G =
     (case map_of (nx_node G) n of
        None \<Rightarrow>
          G\<lparr>nx_adj := AList.update n [] (nx_adj G),
            nx_node := AList.update n (dict_update [] attr) (nx_node G)\<rparr>
      | Some d \<Rightarrow> G\<lparr>nx_node := AList.update n (dict_update d attr) (nx_node G)\<rparr>)"

text \<open>The first half of \<open>add_edge\<close>: an endpoint that is no node yet becomes one,
  with no attributes.\<close>

definition ensure_node :: "string \<Rightarrow> nx_graph \<Rightarrow> nx_graph" where
  "ensure_node n G =
     (case map_of (nx_node G) n of
        None \<Rightarrow>
          G\<lparr>nx_adj := AList.update n [] (nx_adj G),
            nx_node := AList.update n [] (nx_node G)\<rparr>
      | Some d \<Rightarrow> G)"

definition nbrs :: "nx_graph \<Rightarrow> string \<Rightarrow> (string \<times> attrs) list" where
  "nbrs G u = (case map_of (nx_adj G) u of None \<Rightarrow> [] | Some d \<Rightarrow> d)"

definition add_edge :: "string \<Rightarrow> string \<Rightarrow> attrs \<Rightarrow> nx_graph \<Rightarrow> nx_graph" where
  "add_edge u v attr G =
     (let G1 = ensure_node v (ensure_node u G);
          datadict = dict_update (case map_of (nbrs G1 u) v of None \<Rightarrow> [] | Some d \<Rightarrow> d) attr;
          G2 = G1\<lparr>nx_adj := AList.update u (AList.update v datadict (nbrs G1 u)) (nx_adj G1)\<rparr>
      in G2\<lparr>nx_adj := AList.update v (AList.update u datadict (nbrs G2 v)) (nx_adj G2)\<rparr>)"

text \<open>\<open>n in G\<close>, \<open>G.nodes\<close>, \<open>G.has_edge(u, v)\<close> and \<open>G.edges(data=True)\<close>; the edge
  view reports every undirected edge once.\<close>

definition has_node :: "nx_graph \<Rightarrow> string \<Rightarrow> bool" where
  "has_node G n = (map_of (nx_node G) n \<noteq> None)"

definition nodes :: "nx_graph \<Rightarrow> string list" where
  "nodes G = map fst (nx_node G)"

definition has_edge :: "nx_graph \<Rightarrow> string \<Rightarrow> string \<Rightarrow> bool" where
  "has_edge G u v = (map_of (nbrs G u) v \<noteq> None)"

fun edges_from :: "string list \<Rightarrow> (string \<times> (string \<times> attrs) list) list
    \<Rightarrow> (string \<times> string \<times> attrs) list" where
  "edges_from seen [] = []"
| "edges_from seen ((n, nb) # rest) =
     [(n, m, d). (m, d) \<leftarrow> nb, m \<notin> set seen] @ edges_from (n # seen) rest"

definition edges :: "nx_graph \<Rightarrow> (string \<times> string \<times> attrs) list" where
  "edges G = edges_from [] (nx_adj G)"

definition node_attr :: "nx_graph \<Rightarrow> string \<Rightarrow> string \<Rightarrow> attr option" where
  "node_attr G n k = (case map_of (nx_node G) n of None \<Rightarrow> None | Some d \<Rightarrow> map_of d k)"

text \<open>
  What networkx maintains of its two dictionaries: they have the same keys, no key is
  stored twice, and every neighbour is a node. Every graph built from the empty one by
  \<open>add_node\<close> and \<open>add_edge\<close> is of this kind (lemmas \<open>nx_ok_add_node\<close> and
  \<open>nx_ok_add_edge\<close>), so \<open>self._adj[u]\<close> in \<open>add_edge\<close> never raises.
\<close>

definition adj_keys :: "nx_graph \<Rightarrow> bool" where
  "adj_keys G = (\<forall>n. map_of (nx_adj G) n = None \<longleftrightarrow> map_of (nx_node G) n = None)"

definition nx_ok :: "nx_graph \<Rightarrow> bool" where
  "nx_ok G =
     (adj_keys G \<and> distinct (map fst (nx_adj G)) \<and> distinct (nodes G) \<and>
      (\<forall>u v. has_edge G u v \<longrightarrow> v \<in> set (nodes G)))"

section \<open>The entity projector: \<open>to_networkx_entity_graph\<close>\<close>

text \<open>First pass of the projector, and the identical loop of the exporter: the set of
  URI references in subject or object position.\<close>

fun collect_uris :: "triple list \<Rightarrow> rdf_term list \<Rightarrow> rdf_term list" where
  "collect_uris [] acc = acc"
| "collect_uris ((s, p, ob) # ts) acc =
     collect_uris ts
       (let acc1 = (if is_URIRef s then set_add s acc else acc)
        in if is_URIRef ob then set_add ob acc1 else acc1)"

definition entity_node :: "graph \<Rightarrow> nx_graph \<Rightarrow> rdf_term \<Rightarrow> nx_graph" where
  "entity_node g G node =
     add_node (str node)
       [(''label'', S (get_label g node)),
        (''type'', S (nx_get_type_label g node)),
        (''uri'', S (str node)),
        (''kind'', S ''Entity'')] G"

text \<open>Second pass: \<open>qname\<close> may raise, and the exception leaves the projector.\<close>

fun entity_edges :: "graph \<Rightarrow> triple list \<Rightarrow> nx_graph \<Rightarrow> error + nx_graph" where
  "entity_edges g [] G = Inr G"
| "entity_edges g ((s, p, ob) # ts) G =
     (if is_URIRef s \<and> is_URIRef ob then
        (case qname g p of
           Inl e \<Rightarrow> Inl e
         | Inr q \<Rightarrow>
             entity_edges g ts
               (add_edge (str s) (str ob) [(''label'', S q), (''uri'', S (str p))] G))
      else entity_edges g ts G)"

definition to_networkx_entity_graph :: "graph \<Rightarrow> error + nx_graph" where
  "to_networkx_entity_graph g =
     entity_edges g (triples g)
       (foldl (entity_node g) nx_empty (collect_uris (triples g) []))"

section \<open>The bipartite projector: \<open>to_networkx_bipartite_graph\<close>\<close>

definition vehicle_node :: "graph \<Rightarrow> nx_graph \<Rightarrow> rdf_term \<Rightarrow> nx_graph" where
  "vehicle_node g G v =
     add_node (str v)
       [(''label'', S (get_label g v)), (''type'', S ''VehicleModel''), (''bipartite'', I 0)] G"

definition sensor_node :: "graph \<Rightarrow> nx_graph \<Rightarrow> rdf_term \<Rightarrow> nx_graph" where
  "sensor_node g G s =
     add_node (str s)
       [(''label'', S (get_label g s)), (''type'', S ''SensorModel''), (''bipartite'', I 1)] G"

definition compatible_edge :: "rdf_term \<Rightarrow> nx_graph \<Rightarrow> rdf_term \<Rightarrow> nx_graph" where
  "compatible_edge v G s =
     (if has_node G (str s) then add_edge (str v) (str s) [(''label'', S ''compatibleWith'')] G
      else G)"

definition vehicle_edges :: "graph \<Rightarrow> nx_graph \<Rightarrow> rdf_term \<Rightarrow> nx_graph" where
  "vehicle_edges g G v = foldl (compatible_edge v) G (objects g v (EX_ns ''compatibleWithModel''))"

definition to_networkx_bipartite_graph :: "graph \<Rightarrow> nx_graph" where
  "to_networkx_bipartite_graph g =
     (let vehicles = py_set (subjects g RDF_type (EX_ns ''VehicleModel''));
          G1 = foldl (vehicle_node g) nx_empty vehicles;
          sensors = py_set (subjects g RDF_type (EX_ns ''SensorModel''));
          G2 = foldl (sensor_node g) G1 sensors
      in foldl (vehicle_edges g) G2 vehicles)"

section \<open>The tabular exporter: \<open>export_to_csv\<close>\<close>

record node_row =
  n_uri :: string
  n_label :: string
  n_type :: string

record edge_row =
  start_uri :: string
  end_uri :: string
  e_type :: string
  e_uri :: string

text \<open>One step of the loop over \<open>all_uris\<close>; the state is \<open>nodes_data\<close> and
  \<open>processed_nodes\<close>.\<close>

definition node_record :: "graph \<Rightarrow> node_row list \<times> rdf_term list \<Rightarrow> rdf_term
    \<Rightarrow> node_row list \<times> rdf_term list" where
  "node_record g st uri =
     (case st of (nodes_data, processed_nodes) \<Rightarrow>
        if uri \<notin> set processed_nodes then
          (let node_type = get_type_label g uri;
               node_type' = (if node_type = ''Resource'' \<and> \<not> has_subject g uri
                             then ''Concept'' else node_type)
           in (nodes_data @ [\<lparr>n_uri = str uri, n_label = get_node_label g uri, n_type = node_type'\<rparr>],
               set_add uri processed_nodes))
        else (nodes_data, processed_nodes))"

fun edge_records :: "graph \<Rightarrow> triple list \<Rightarrow> edge_row list \<Rightarrow> error + edge_row list" where
  "edge_records g [] edges_data = Inr edges_data"
| "edge_records g ((s, p, ob) # ts) edges_data =
     (if is_URIRef s \<and> is_URIRef ob then
        (case qname g p of
           Inl e \<Rightarrow> Inl e
         | Inr q \<Rightarrow>
             edge_records g ts
               (edges_data @
                [\<lparr>start_uri = str s, end_uri = str ob,
                  e_type = upper (replace_char CHR '':'' CHR ''_'' q), e_uri = str p\<rparr>]))
      else edge_records g ts edges_data)"

text \<open>The two row lists handed to pandas; writing the files is outside the model.\<close>

definition export_to_csv :: "graph \<Rightarrow> error + (node_row list \<times> edge_row list)" where
  "export_to_csv g =
     (let all_uris = collect_uris (triples g) [];
          nodes_data = fst (foldl (node_record g) ([], []) all_uris)
      in case edge_records g (triples g) [] of
           Inl e \<Rightarrow> Inl e
         | Inr edges_data \<Rightarrow> Inr (nodes_data, edges_data))"

section \<open>Example graphs\<close>

text \<open>
  A namespace manager for the examples, given by its prefix bindings: \<open>n3\<close> renders a
  URI reference as \<open>prefix:name\<close> when a bound namespace starts it and as \<open><uri>\<close>
  otherwise; \<open>qname\<close> gives the same prefixed name and raises when nothing is bound.
\<close>

fun strip_prefix :: "string \<Rightarrow> string \<Rightarrow> string option" where
  "strip_prefix [] s = Some s"
| "strip_prefix (p # ps) [] = None"
| "strip_prefix (p # ps) (c # cs) = (if p = c then strip_prefix ps cs else None)"

fun find_binding :: "(string \<times> string) list \<Rightarrow> string \<Rightarrow> string option" where
  "find_binding [] u = None"
| "find_binding ((prefix, ns) # bs) u =
     (case strip_prefix ns u of
        Some name \<Rightarrow> Some (prefix @ '':'' @ name)
      | None \<Rightarrow> find_binding bs u)"

fun ns_n3 :: "(string \<times> string) list \<Rightarrow> rdf_term \<Rightarrow> error + string" where
  "ns_n3 bs (URIRef u) =
     (case find_binding bs u of Some q \<Rightarrow> Inr q | None \<Rightarrow> Inr (''<'' @ u @ ''>''))"
| "ns_n3 bs (BNode b) = Inr (''_:'' @ b)"
| "ns_n3 bs (Literal l v) = Inr ([CHR 0x22] @ l @ [CHR 0x22])"

definition ns_qname :: "(string \<times> string) list \<Rightarrow> rdf_term \<Rightarrow> error + string" where
  "ns_qname bs p = (case find_binding bs (str p) of Some q \<Rightarrow> Inr q | None \<Rightarrow> Inl ValueError)"

definition project_bindings :: "(string \<times> string) list" where
  "project_bindings =
     [(''ex'', ''http://example.com/ontology/''),
      (''sen'', ''http://example.com/sensor/''),
      (''veh'', ''http://example.com/vehicle/''),
      (''rdfs'', ''http://www.w3.org/2000/01/rdf-schema#''),
      (''rdf'', ''http://www.w3.org/1999/02/22-rdf-syntax-ns#'')]"

definition mk_graph :: "triple list \<Rightarrow> graph" where
  "mk_graph ts = \<lparr>triples = ts, n3 = ns_n3 project_bindings, qname = ns_qname project_bindings\<rparr>"

definition v1 :: rdf_term where "v1 = URIRef ''http://example.com/vehicle/v1''"
definition v2 :: rdf_term where "v2 = URIRef ''http://example.com/vehicle/v2''"
definition s1 :: rdf_term where "s1 = URIRef ''http://example.com/sensor/s1''"

text \<open>Scenario A of the specification.\<close>

definition scenario_A :: graph where
  "scenario_A = mk_graph
     [(v1, RDF_type, EX_ns ''VehicleModel''),
      (v1, RDFS_label, Literal ''Car A'' True),
      (s1, RDF_type, EX_ns ''SensorModel''),
      (s1, RDFS_label, Literal ''Sensor A'' True),
      (v1, EX_ns ''compatibleWithModel'', s1)]"

text \<open>Two vehicle models, one declared compatible with the other.\<close>

definition two_vehicles :: graph where
  "two_vehicles = mk_graph
     [(v1, RDF_type, EX_ns ''VehicleModel''),
      (v2, RDF_type, EX_ns ''VehicleModel''),
      (v1, EX_ns ''compatibleWithModel'', v2)]"

text \<open>Scenario B: a location that is only ever an object and has no declared type; its
  namespace has no binding.\<close>

definition berlin :: rdf_term where "berlin = URIRef ''http://other.org/places/berlin''"

definition scenario_B :: graph where
  "scenario_B = mk_graph [(s1, EX_ns ''locatedIn'', berlin)]"

text \<open>Scenario C: two predicates between the same pair.\<close>

definition scenario_C :: graph where
  "scenario_C = mk_graph
     [(v1, EX_ns ''compatibleWithModel'', s1),
      (v1, EX_ns ''testedWith'', s1)]"

text \<open>A triple with a blank-node subject beside a triple between two URI references.\<close>

definition with_blank :: graph where
  "with_blank = mk_graph
     [(BNode ''b0'', EX_ns ''locatedIn'', s1),
      (v1, EX_ns ''compatibleWithModel'', s1),
      (v1, EX_ns ''owner'', BNode ''b1'')]"

section \<open>Notions used in the statements\<close>

text \<open>The URI references in subject or object position, and the identifier pairs of
  the triples that link two URI references.\<close>

definition uri_terms :: "triple list \<Rightarrow> rdf_term set" where
  "uri_terms ts = {t. is_URIRef t \<and> (\<exists>s p ob. (s, p, ob) \<in> set ts \<and> (t = s \<or> t = ob))}"

definition uri_pairs :: "triple list \<Rightarrow> (string \<times> string) set" where
  "uri_pairs ts = {(str s, str ob) | s p ob. (s, p, ob) \<in> set ts \<and> is_URIRef s \<and> is_URIRef ob}"

text \<open>\<open>qname\<close> returns for the predicate of every triple between two URI references:
  these are the only calls of \<open>qname\<close> the entity projector and the exporter make.\<close>

definition qname_returns :: "graph \<Rightarrow> bool" where
  "qname_returns g =
     list_all (\<lambda>(s, p, ob). is_URIRef s \<and> is_URIRef ob \<longrightarrow>
                 (case qname g p of Inl e \<Rightarrow> False | Inr q \<Rightarrow> True)) (triples g)"

section \<open>Properties\<close>

lemma str_URIRef_inj: "is_URIRef a \<Longrightarrow> is_URIRef b \<Longrightarrow> str a = str b \<Longrightarrow> a = b"
  by (cases a; cases b) simp_all

subsection \<open>Lists and strings\<close>

lemma count_list_distinct: "distinct xs \<Longrightarrow> x \<in> set xs \<Longrightarrow> count_list xs x = 1"
  by (induction xs) auto

lemma split_sep_not_Nil: "split_sep c s \<noteq> []"
  by (induction s) (auto split: list.splits)

lemma split_sep_no_sep: "c \<notin> set s \<Longrightarrow> split_sep c s = [s]"
  by (induction s) auto

lemma split_sep_with_sep: "c \<in> set s \<Longrightarrow> \<exists>w v ws. split_sep c s = w # v # ws"
proof (induction s)
  case Nil
  then show ?case by simp
next
  case (Cons x s)
  show ?case
  proof (cases "x = c")
    case True
    then show ?thesis using split_sep_not_Nil[of c s] by (cases "split_sep c s") auto
  next
    case False
    with Cons.prems have "c \<in> set s" by simp
    from Cons.IH[OF this] False show ?thesis by auto
  qed
qed

lemma last_split_sep: "last (split_sep c s) = rev (takeWhile (\<lambda>x. x \<noteq> c) (rev s))"
proof (induction s)
  case Nil
  then show ?case by simp
next
  case (Cons x s)
  show ?case
  proof (cases "c \<in> set s")
    case False
    then have "c \<notin> set s" .
    then show ?thesis
      by (cases "x = c") (simp_all add: split_sep_no_sep takeWhile_append)
  next
    case True
    from split_sep_with_sep[OF True] obtain w v ws where sp: "split_sep c s = w # v # ws" by blast
    have "last (split_sep c (x # s)) = last (split_sep c s)"
      using sp by simp
    also have "\<dots> = rev (takeWhile (\<lambda>x. x \<noteq> c) (rev s))" by (rule Cons.IH)
    also have "\<dots> = rev (takeWhile (\<lambda>x. x \<noteq> c) (rev (x # s)))"
      using True by (auto simp: takeWhile_append)
    finally show ?thesis .
  qed
qed

subsection \<open>Dictionaries and the networkx graph\<close>

lemma in_keys_iff: "n \<in> fst ` set al \<longleftrightarrow> map_of al n \<noteq> None"
  by (simp add: map_of_eq_None_iff)

lemma keys_update:
  "map fst (AList.update k v al) = (if map_of al k = None then map fst al @ [k] else map fst al)"
  by (simp add: update_keys in_keys_iff)

lemma has_node_iff: "has_node G n \<longleftrightarrow> n \<in> set (nodes G)"
  by (simp add: has_node_def nodes_def in_keys_iff)

lemma nodes_add_node:
  "nodes (add_node n a G) = (if n \<in> set (nodes G) then nodes G else nodes G @ [n])"
  by (simp add: add_node_def nodes_def keys_update in_keys_iff split: option.splits)

lemma nodes_ensure_node:
  "nodes (ensure_node n G) = (if n \<in> set (nodes G) then nodes G else nodes G @ [n])"
  by (simp add: ensure_node_def nodes_def keys_update in_keys_iff split: option.splits)

lemma nodes_add_edge:
  "nodes (add_edge u v a G) = nodes (ensure_node v (ensure_node u G))"
  by (simp add: add_edge_def Let_def nodes_def)

lemma set_nodes_add_node: "set (nodes (add_node n a G)) = insert n (set (nodes G))"
  by (auto simp: nodes_add_node)

lemma set_nodes_add_edge: "set (nodes (add_edge u v a G)) = insert u (insert v (set (nodes G)))"
  by (auto simp: nodes_add_edge nodes_ensure_node)

lemma distinct_nodes_add_node: "distinct (nodes G) \<Longrightarrow> distinct (nodes (add_node n a G))"
  by (simp add: nodes_add_node)

lemma distinct_nodes_add_edge: "distinct (nodes G) \<Longrightarrow> distinct (nodes (add_edge u v a G))"
  by (simp add: nodes_add_edge nodes_ensure_node)

lemma adj_keys_empty: "adj_keys nx_empty"
  by (simp add: adj_keys_def nx_empty_def)

lemma adj_keys_None: "adj_keys G \<Longrightarrow> map_of (nx_node G) n = None \<Longrightarrow> map_of (nx_adj G) n = None"
  by (simp add: adj_keys_def)

lemma nbrs_ensure_node:
  assumes "adj_keys G"
  shows "nbrs (ensure_node n G) x = nbrs G x"
proof (cases "map_of (nx_node G) n")
  case None
  then have "map_of (nx_adj G) n = None" using assms by (rule adj_keys_None[rotated])
  with None show ?thesis by (simp add: nbrs_def ensure_node_def update_conv')
next
  case (Some d)
  then show ?thesis by (simp add: ensure_node_def)
qed

lemma adj_keys_ensure_node: "adj_keys G \<Longrightarrow> adj_keys (ensure_node n G)"
  by (cases "map_of (nx_node G) n") (simp_all add: adj_keys_def ensure_node_def update_conv')

lemma adj_keys_add_node: "adj_keys G \<Longrightarrow> adj_keys (add_node n a G)"
  by (cases "map_of (nx_node G) n") (simp_all add: adj_keys_def add_node_def update_conv')

lemma nbrs_add_node:
  assumes "adj_keys G"
  shows "nbrs (add_node n a G) x = nbrs G x"
proof (cases "map_of (nx_node G) n")
  case None
  then have "map_of (nx_adj G) n = None" using assms by (rule adj_keys_None[rotated])
  with None show ?thesis by (simp add: nbrs_def add_node_def update_conv')
next
  case (Some d)
  then show ?thesis by (simp add: add_node_def nbrs_def)
qed

lemma nbrs_add_edge:
  assumes "adj_keys G"
  shows "nbrs (add_edge u v a G) x =
     (let dd = dict_update (case map_of (nbrs G u) v of None \<Rightarrow> [] | Some d \<Rightarrow> d) a in
      if x = v then AList.update u dd (if u = v then AList.update v dd (nbrs G u) else nbrs G v)
      else if x = u then AList.update v dd (nbrs G u)
      else nbrs G x)"
proof -
  have 0: "nbrs (ensure_node q (ensure_node p G)) y = nbrs G y" for p q y
    using assms by (simp add: nbrs_ensure_node adj_keys_ensure_node)
  then have 1: "(case map_of (nx_adj (ensure_node q (ensure_node p G))) y of
                   None \<Rightarrow> [] | Some d \<Rightarrow> d) = nbrs G y" for p q y
    by (simp add: nbrs_def)
  have 2: "nbrs (H\<lparr>nx_adj := A\<rparr>) y = (case map_of A y of None \<Rightarrow> [] | Some d \<Rightarrow> d)" for H A y
    by (simp add: nbrs_def)
  show ?thesis
    by (simp add: add_edge_def Let_def 2 update_conv' 1 0)
qed

lemma adj_keys_adj_update:
  "adj_keys G \<Longrightarrow> map_of (nx_node G) k \<noteq> None \<Longrightarrow> adj_keys (G\<lparr>nx_adj := AList.update k d (nx_adj G)\<rparr>)"
  by (auto simp: adj_keys_def update_conv')

lemma node_ensure_node_self: "map_of (nx_node (ensure_node n G)) n \<noteq> None"
  by (cases "map_of (nx_node G) n") (simp_all add: ensure_node_def update_conv')

lemma node_ensure_node_mono: "map_of (nx_node G) m \<noteq> None \<Longrightarrow> map_of (nx_node (ensure_node n G)) m \<noteq> None"
  by (cases "map_of (nx_node G) n") (simp_all add: ensure_node_def update_conv')

lemma adj_keys_add_edge:
  assumes "adj_keys G"
  shows "adj_keys (add_edge u v a G)"
proof -
  let ?G1 = "ensure_node v (ensure_node u G)"
  have k1: "adj_keys ?G1" using assms by (simp add: adj_keys_ensure_node)
  have nu: "map_of (nx_node ?G1) u \<noteq> None"
    by (rule node_ensure_node_mono) (rule node_ensure_node_self)
  have nv: "map_of (nx_node ?G1) v \<noteq> None" by (rule node_ensure_node_self)
  show ?thesis
    unfolding add_edge_def Let_def
    by (rule adj_keys_adj_update, rule adj_keys_adj_update, rule k1, rule nu) (simp add: nv)
qed

lemma has_edge_add_node: "adj_keys G \<Longrightarrow> has_edge (add_node n a G) x y = has_edge G x y"
  by (simp add: has_edge_def nbrs_add_node)

lemma has_edge_add_edge:
  "adj_keys G \<Longrightarrow> has_edge (add_edge u v a G) x y \<longleftrightarrow>
     has_edge G x y \<or> (x = u \<and> y = v) \<or> (x = v \<and> y = u)"
  by (auto simp: has_edge_def nbrs_add_edge Let_def update_conv')

lemma edges_from_sub:
  "(u, v, d) \<in> set (edges_from seen al) \<Longrightarrow> \<exists>nb. (u, nb) \<in> set al \<and> (v, d) \<in> set nb"
  by (induction seen al rule: edges_from.induct) auto

lemma distinct_adj_add_node:
  "distinct (map fst (nx_adj G)) \<Longrightarrow> distinct (map fst (nx_adj (add_node n a G)))"
  by (cases "map_of (nx_node G) n") (simp_all add: add_node_def distinct_update)

lemma distinct_adj_ensure_node:
  "distinct (map fst (nx_adj G)) \<Longrightarrow> distinct (map fst (nx_adj (ensure_node n G)))"
  by (cases "map_of (nx_node G) n") (simp_all add: ensure_node_def distinct_update)

lemma distinct_adj_add_edge:
  "distinct (map fst (nx_adj G)) \<Longrightarrow> distinct (map fst (nx_adj (add_edge u v a G)))"
  by (simp add: add_edge_def Let_def distinct_update distinct_adj_ensure_node)

lemma nx_ok_empty: "nx_ok nx_empty"
  by (simp add: nx_ok_def adj_keys_empty) (simp add: nx_empty_def nodes_def has_edge_def nbrs_def)

lemma nx_ok_add_node: "nx_ok G \<Longrightarrow> nx_ok (add_node n a G)"
  by (simp add: nx_ok_def adj_keys_add_node distinct_adj_add_node distinct_nodes_add_node
      has_edge_add_node set_nodes_add_node)

lemma nx_ok_add_edge: "nx_ok G \<Longrightarrow> nx_ok (add_edge u v a G)"
  by (auto simp: nx_ok_def adj_keys_add_edge distinct_adj_add_edge distinct_nodes_add_edge
      has_edge_add_edge set_nodes_add_edge)

lemma edges_has_edge:
  assumes "distinct (map fst (nx_adj G))" and "(u, v, d) \<in> set (edges G)"
  shows "has_edge G u v"
proof -
  from assms(2) obtain nb where nb: "(u, nb) \<in> set (nx_adj G)" "(v, d) \<in> set nb"
    unfolding edges_def by (blast dest: edges_from_sub)
  from nb(1) assms(1) have "map_of (nx_adj G) u = Some nb" by simp
  moreover from nb(2) have "map_of nb v \<noteq> None"
    by (simp add: map_of_eq_None_iff) (force simp: image_iff)
  ultimately show ?thesis by (simp add: has_edge_def nbrs_def)
qed

lemma has_edge_nodes:
  assumes "adj_keys G" and "has_edge G u v"
  shows "u \<in> set (nodes G)"
proof -
  from assms(2) have "map_of (nx_adj G) u \<noteq> None"
    by (auto simp: has_edge_def nbrs_def split: option.splits)
  with assms(1) have "map_of (nx_node G) u \<noteq> None" by (simp add: adj_keys_def)
  then show ?thesis by (simp add: nodes_def in_keys_iff)
qed

lemma nx_ok_edges_nodes:
  assumes "nx_ok G" and "(u, v, d) \<in> set (edges G)"
  shows "u \<in> set (nodes G) \<and> v \<in> set (nodes G)"
proof -
  from assms have e: "has_edge G u v" by (simp add: nx_ok_def edges_has_edge)
  with assms(1) show ?thesis by (auto simp: nx_ok_def dest: has_edge_nodes)
qed

subsection \<open>The entity projector\<close>

lemma set_set_add: "set (set_add x xs) = insert x (set xs)"
  by (auto simp: set_add_def)

lemma distinct_set_add: "distinct xs \<Longrightarrow> distinct (set_add x xs)"
  by (simp add: set_add_def)

lemma uri_terms_Nil: "uri_terms [] = {}"
  by (simp add: uri_terms_def)

lemma uri_terms_Cons:
  "uri_terms ((s, p, ob) # ts) =
     (if is_URIRef s then {s} else {}) \<union> (if is_URIRef ob then {ob} else {}) \<union> uri_terms ts"
  by (auto simp: uri_terms_def)

lemma set_collect_uris: "set (collect_uris ts acc) = set acc \<union> uri_terms ts"
  by (induction ts acc rule: collect_uris.induct)
     (auto simp: uri_terms_Nil uri_terms_Cons set_set_add Let_def)

lemma distinct_collect_uris: "distinct acc \<Longrightarrow> distinct (collect_uris ts acc)"
  by (induction ts acc rule: collect_uris.induct) (simp_all add: distinct_set_add Let_def)

lemma nx_ok_entity_nodes: "nx_ok G \<Longrightarrow> nx_ok (foldl (entity_node g) G xs)"
  by (induction xs arbitrary: G) (simp_all add: entity_node_def nx_ok_add_node)

lemma nodes_entity_nodes:
  "set (nodes (foldl (entity_node g) G xs)) = set (nodes G) \<union> str ` set xs"
  by (induction xs arbitrary: G) (auto simp: entity_node_def set_nodes_add_node)

lemma has_edge_entity_nodes:
  "nx_ok G \<Longrightarrow> has_edge (foldl (entity_node g) G xs) x y = has_edge G x y"
proof (induction xs arbitrary: G)
  case Nil
  then show ?case by simp
next
  case (Cons n xs)
  from Cons.prems have "nx_ok (entity_node g G n)" by (simp add: entity_node_def nx_ok_add_node)
  from Cons.IH[OF this] Cons.prems show ?case
    by (simp add: entity_node_def has_edge_add_node nx_ok_def)
qed

lemma uri_pairs_Nil: "uri_pairs [] = {}"
  by (simp add: uri_pairs_def)

lemma uri_pairs_Cons:
  "uri_pairs ((s, p, ob) # ts) =
     (if is_URIRef s \<and> is_URIRef ob then {(str s, str ob)} else {}) \<union> uri_pairs ts"
  by (auto simp: uri_pairs_def)

lemma entity_edges_ok:
  "entity_edges g ts G = Inr G' \<Longrightarrow> nx_ok G \<Longrightarrow>
     nx_ok G' \<and>
     set (nodes G') = set (nodes G) \<union> fst ` uri_pairs ts \<union> snd ` uri_pairs ts \<and>
     (\<forall>x y. has_edge G' x y \<longleftrightarrow> has_edge G x y \<or> (x, y) \<in> uri_pairs ts \<or> (y, x) \<in> uri_pairs ts)"
proof (induction g ts G rule: entity_edges.induct)
  case (1 g G)
  then show ?case by (simp add: uri_pairs_Nil)
next
  case (2 g s p ob ts G)
  show ?case
  proof (cases "is_URIRef s \<and> is_URIRef ob")
    case False
    then have c: "uri_pairs ((s, p, ob) # ts) = uri_pairs ts" "entity_edges g ((s, p, ob) # ts) G = entity_edges g ts G"
      by (auto simp: uri_pairs_Cons)
    from "2.IH"(2)[OF False] "2.prems" show ?thesis unfolding c by blast
  next
    case True
    with "2.prems"(1) obtain q where q: "qname g p = Inr q"
      by (auto split: sum.splits)
    let ?G1 = "add_edge (str s) (str ob) [(''label'', S q), (''uri'', S (str p))] G"
    from True q "2.prems"(1) have r: "entity_edges g ts ?G1 = Inr G'" by simp
    have ok1: "nx_ok ?G1" using "2.prems"(2) by (rule nx_ok_add_edge)
    from "2.IH"(1)[OF True q r ok1]
    have ih: "nx_ok G'"
      "set (nodes G') = set (nodes ?G1) \<union> fst ` uri_pairs ts \<union> snd ` uri_pairs ts"
      "\<And>x y. has_edge G' x y \<longleftrightarrow> has_edge ?G1 x y \<or> (x, y) \<in> uri_pairs ts \<or> (y, x) \<in> uri_pairs ts"
      by blast+
    have k: "adj_keys G" using "2.prems"(2) by (simp add: nx_ok_def)
    show ?thesis
      using True ih(1)
      by (auto simp: ih(2) ih(3) uri_pairs_Cons set_nodes_add_edge has_edge_add_edge[OF k])
  qed
qed

lemma entity_edges_total:
  "(\<forall>(s, p, ob) \<in> set ts. is_URIRef s \<and> is_URIRef ob \<longrightarrow> (\<exists>q. qname g p = Inr q)) \<Longrightarrow>
     \<exists>G'. entity_edges g ts G = Inr G'"
  by (induction g ts G rule: entity_edges.induct) (auto split: sum.splits)

subsection \<open>The bipartite projector\<close>

lemma nx_ok_vehicle_nodes: "nx_ok G \<Longrightarrow> nx_ok (foldl (vehicle_node g) G xs)"
  by (induction xs arbitrary: G) (simp_all add: vehicle_node_def nx_ok_add_node)

lemma nx_ok_sensor_nodes: "nx_ok G \<Longrightarrow> nx_ok (foldl (sensor_node g) G xs)"
  by (induction xs arbitrary: G) (simp_all add: sensor_node_def nx_ok_add_node)

lemma nx_ok_compatible_edges: "nx_ok G \<Longrightarrow> nx_ok (foldl (compatible_edge v) G xs)"
  by (induction xs arbitrary: G) (simp_all add: compatible_edge_def nx_ok_add_edge)

lemma nx_ok_vehicle_edges: "nx_ok G \<Longrightarrow> nx_ok (foldl (vehicle_edges g) G xs)"
  by (induction xs arbitrary: G) (simp_all add: vehicle_edges_def nx_ok_compatible_edges)

lemma nx_ok_bipartite: "nx_ok (to_networkx_bipartite_graph g)"
  by (simp add: to_networkx_bipartite_graph_def Let_def nx_ok_vehicle_edges nx_ok_sensor_nodes
      nx_ok_vehicle_nodes nx_ok_empty)

subsection \<open>The exporter\<close>

lemma node_record_rows:
  "r \<in> set (fst (foldl (node_record g) st xs)) \<Longrightarrow>
     r \<in> set (fst st) \<or>
     (\<exists>u \<in> set xs. r = \<lparr>n_uri = str u, n_label = get_node_label g u,
        n_type = (if get_type_label g u = ''Resource'' \<and> \<not> has_subject g u
                  then ''Concept'' else get_type_label g u)\<rparr>)"
proof (induction xs arbitrary: st)
  case Nil
  then show ?case by simp
next
  case (Cons x xs)
  from Cons.prems have "r \<in> set (fst (foldl (node_record g) (node_record g st x) xs))" by simp
  from Cons.IH[OF this] show ?case
    by (cases st) (auto simp: node_record_def Let_def split: if_splits)
qed

lemma edge_records_rows:
  "edge_records g ts acc = Inr ed \<Longrightarrow> r \<in> set ed \<Longrightarrow>
     r \<in> set acc \<or>
     (\<exists>s p ob q. (s, p, ob) \<in> set ts \<and> is_URIRef s \<and> is_URIRef ob \<and> qname g p = Inr q \<and>
        r = \<lparr>start_uri = str s, end_uri = str ob,
             e_type = upper (replace_char CHR '':'' CHR ''_'' q), e_uri = str p\<rparr>)"
proof (induction g ts acc rule: edge_records.induct)
  case (1 g edges_data)
  then show ?case by simp
next
  case (2 g s p ob ts edges_data)
  show ?case
  proof (cases "is_URIRef s \<and> is_URIRef ob")
    case False
    then have c: "edge_records g ((s, p, ob) # ts) edges_data = edge_records g ts edges_data"
      by auto
    from "2.IH"(2)[OF False] "2.prems" show ?thesis unfolding c by auto
  next
    case True
    with "2.prems"(1) obtain q where q: "qname g p = Inr q"
      by (auto split: sum.splits)
    from True q "2.prems"(1) "2.IH"(1)[OF True q _ "2.prems"(2)] show ?thesis
      by auto
  qed
qed

subsection \<open>The node list of the entity projection\<close>

lemma nodes_add_node_new: "n \<notin> set (nodes G) \<Longrightarrow> nodes (add_node n a G) = nodes G @ [n]"
  by (simp add: nodes_add_node)

lemma nodes_entity_nodes_list:
  "distinct (nodes G @ map str xs) \<Longrightarrow> nodes (foldl (entity_node g) G xs) = nodes G @ map str xs"
proof (induction xs arbitrary: G)
  case Nil
  then show ?case by simp
next
  case (Cons x xs)
  from Cons.prems have new: "str x \<notin> set (nodes G)" by auto
  then have n1: "nodes (entity_node g G x) = nodes G @ [str x]"
    by (simp add: entity_node_def nodes_add_node_new)
  from Cons.prems have "distinct (nodes (entity_node g G x) @ map str xs)"
    by (auto simp: n1)
  from Cons.IH[OF this] show ?case by (simp add: n1)
qed

lemma uri_terms_is_URIRef: "t \<in> uri_terms ts \<Longrightarrow> is_URIRef t"
  by (simp add: uri_terms_def)

lemma distinct_map_str: "distinct xs \<Longrightarrow> \<forall>t \<in> set xs. is_URIRef t \<Longrightarrow> distinct (map str xs)"
  by (auto simp: distinct_map inj_on_def intro: str_URIRef_inj)

lemma collect_uris_URIRef: "t \<in> set (collect_uris ts []) \<Longrightarrow> is_URIRef t"
  by (simp add: set_collect_uris uri_terms_is_URIRef)

lemma distinct_str_collect_uris: "distinct (map str (collect_uris ts []))"
  by (rule distinct_map_str) (simp_all add: distinct_collect_uris collect_uris_URIRef)

lemma nodes_nx_empty: "nodes nx_empty = []"
  by (simp add: nodes_def nx_empty_def)

lemma nodes_add_edge_old:
  "u \<in> set (nodes G) \<Longrightarrow> v \<in> set (nodes G) \<Longrightarrow> nodes (add_edge u v a G) = nodes G"
  by (simp add: nodes_add_edge nodes_ensure_node)

lemma entity_edges_nodes:
  "entity_edges g ts G = Inr G' \<Longrightarrow> fst ` uri_pairs ts \<union> snd ` uri_pairs ts \<subseteq> set (nodes G) \<Longrightarrow>
     nodes G' = nodes G"
proof (induction g ts G rule: entity_edges.induct)
  case (1 g G)
  then show ?case by simp
next
  case (2 g s p ob ts G)
  show ?case
  proof (cases "is_URIRef s \<and> is_URIRef ob")
    case False
    then have c: "uri_pairs ((s, p, ob) # ts) = uri_pairs ts"
        "entity_edges g ((s, p, ob) # ts) G = entity_edges g ts G"
      by (auto simp: uri_pairs_Cons)
    from "2.IH"(2)[OF False] "2.prems" show ?thesis unfolding c by blast
  next
    case True
    with "2.prems"(1) obtain q where q: "qname g p = Inr q"
      by (auto split: sum.splits)
    let ?G1 = "add_edge (str s) (str ob) [(''label'', S q), (''uri'', S (str p))] G"
    from True q "2.prems"(1) have r: "entity_edges g ts ?G1 = Inr G'" by simp
    from True "2.prems"(2) have mem: "str s \<in> set (nodes G)" "str ob \<in> set (nodes G)"
      by (auto simp: uri_pairs_Cons)
    then have n1: "nodes ?G1 = nodes G" by (rule nodes_add_edge_old)
    from "2.prems"(2) have "fst ` uri_pairs ts \<union> snd ` uri_pairs ts \<subseteq> set (nodes ?G1)"
      by (auto simp: uri_pairs_Cons n1)
    from "2.IH"(1)[OF True q r this] show ?thesis by (simp add: n1)
  qed
qed

lemma uri_pairs_in_terms:
  "fst ` uri_pairs ts \<union> snd ` uri_pairs ts \<subseteq> str ` uri_terms ts"
  by (auto simp: uri_pairs_def uri_terms_def image_iff) blast+

lemma entity_graph_nodes:
  assumes "to_networkx_entity_graph g = Inr G"
  shows "nodes G = map str (collect_uris (triples g) [])"
proof -
  let ?xs = "collect_uris (triples g) []"
  let ?G0 = "foldl (entity_node g) nx_empty ?xs"
  have n0: "nodes ?G0 = map str ?xs"
    using nodes_entity_nodes_list[of nx_empty ?xs g]
    by (simp add: nodes_nx_empty distinct_str_collect_uris)
  have "fst ` uri_pairs (triples g) \<union> snd ` uri_pairs (triples g) \<subseteq> set (nodes ?G0)"
    using uri_pairs_in_terms[of "triples g"] by (simp add: n0 set_collect_uris)
  with assms have "nodes G = nodes ?G0"
    unfolding to_networkx_entity_graph_def by (rule entity_edges_nodes)
  then show ?thesis by (simp add: n0)
qed

lemma entity_graph_ok:
  assumes "to_networkx_entity_graph g = Inr G"
  shows "nx_ok G"
    and "has_edge G x y \<longleftrightarrow> (x, y) \<in> uri_pairs (triples g) \<or> (y, x) \<in> uri_pairs (triples g)"
proof -
  let ?G0 = "foldl (entity_node g) nx_empty (collect_uris (triples g) [])"
  have ok0: "nx_ok ?G0" by (simp add: nx_ok_entity_nodes nx_ok_empty)
  have e0: "\<not> has_edge ?G0 x y" for x y
    by (simp add: has_edge_entity_nodes nx_ok_empty) (simp add: has_edge_def nbrs_def nx_empty_def)
  from assms have "entity_edges g (triples g) ?G0 = Inr G"
    by (simp add: to_networkx_entity_graph_def)
  from entity_edges_ok[OF this ok0] show "nx_ok G"
    and "has_edge G x y \<longleftrightarrow> (x, y) \<in> uri_pairs (triples g) \<or> (y, x) \<in> uri_pairs (triples g)"
    by (simp_all add: e0)
qed

subsection \<open>The rows of the export\<close>

lemma node_record_list:
  "distinct xs \<Longrightarrow> set xs \<inter> set pr = {} \<Longrightarrow>
     foldl (node_record g) (nd, pr) xs =
       (nd @ map (\<lambda>u. \<lparr>n_uri = str u, n_label = get_node_label g u,
                        n_type = (if get_type_label g u = ''Resource'' \<and> \<not> has_subject g u
                                  then ''Concept'' else get_type_label g u)\<rparr>) xs,
        pr @ xs)"
proof (induction xs arbitrary: nd pr)
  case Nil
  then show ?case by simp
next
  case (Cons x xs)
  from Cons.prems have x: "x \<notin> set pr" by auto
  from Cons.prems have "distinct xs" "set xs \<inter> set (pr @ [x]) = {}" by auto
  from Cons.IH[OF this] x show ?case
    by (simp add: node_record_def Let_def set_add_def)
qed

lemma export_node_rows:
  assumes "export_to_csv g = Inr (nodes_data, edges_data)"
  shows "nodes_data =
     map (\<lambda>u. \<lparr>n_uri = str u, n_label = get_node_label g u,
                n_type = (if get_type_label g u = ''Resource'' \<and> \<not> has_subject g u
                          then ''Concept'' else get_type_label g u)\<rparr>)
       (collect_uris (triples g) [])"
  using assms node_record_list[of "collect_uris (triples g) []" "[]" g "[]"]
  by (auto simp: export_to_csv_def Let_def distinct_collect_uris split: sum.splits)

lemma export_edge_rows:
  assumes "export_to_csv g = Inr (nodes_data, edges_data)"
  shows "edge_records g (triples g) [] = Inr edges_data"
  using assms by (auto simp: export_to_csv_def Let_def split: sum.splits)


lemma no_type_Resource: "objects g u RDF_type = [] \<Longrightarrow> get_type_label g u = ''Resource''"
  by (simp add: get_type_label_def graph_value_def)

subsection \<open>When the projector and the exporter return\<close>

lemma qname_returns_iff:
  "qname_returns g \<longleftrightarrow>
     (\<forall>(s, p, ob) \<in> set (triples g). is_URIRef s \<and> is_URIRef ob \<longrightarrow> (\<exists>q. qname g p = Inr q))"
  by (auto simp: qname_returns_def list_all_iff split: sum.splits)

lemma edge_records_total:
  "(\<forall>(s, p, ob) \<in> set ts. is_URIRef s \<and> is_URIRef ob \<longrightarrow> (\<exists>q. qname g p = Inr q)) \<Longrightarrow>
     \<exists>ed. edge_records g ts acc = Inr ed"
  by (induction g ts acc rule: edge_records.induct) (auto split: sum.splits)

lemma entity_graph_returns:
  "qname_returns g \<Longrightarrow> \<exists>G. to_networkx_entity_graph g = Inr G"
  unfolding to_networkx_entity_graph_def qname_returns_iff by (rule entity_edges_total)

lemma export_returns:
  assumes "qname_returns g"
  shows "\<exists>nodes_data edges_data. export_to_csv g = Inr (nodes_data, edges_data)"
proof -
  from assms have "\<exists>ed. edge_records g (triples g) [] = Inr ed"
    unfolding qname_returns_iff by (rule edge_records_total)
  then show ?thesis by (auto simp: export_to_csv_def Let_def)
qed

lemma entity_edges_returned:
  "entity_edges g ts G = Inr G' \<Longrightarrow> (s, p, ob) \<in> set ts \<Longrightarrow> is_URIRef s \<Longrightarrow> is_URIRef ob \<Longrightarrow>
     \<exists>q. qname g p = Inr q"
  by (induction g ts G rule: entity_edges.induct) (auto split: sum.splits if_splits)

lemma entity_graph_returned:
  "to_networkx_entity_graph g = Inr G \<Longrightarrow> qname_returns g"
  unfolding qname_returns_iff to_networkx_entity_graph_def
  by (auto dest: entity_edges_returned)

section \<open>The claims\<close>

text \<open>
  Claim C1 (bipartite purity), evaluated on two vehicle models of which one is declared
  compatible with the other: the projection has an edge whose two endpoints both carry
  \<open>bipartite = 0\<close>.
\<close>

theorem C1_same_side_edge:
  "edges (to_networkx_bipartite_graph two_vehicles) =
     [(''http://example.com/vehicle/v1'', ''http://example.com/vehicle/v2'',
       [(''label'', S ''compatibleWith'')])] \<and>
   node_attr (to_networkx_bipartite_graph two_vehicles) ''http://example.com/vehicle/v1''
     ''bipartite'' = Some (I 0) \<and>
   node_attr (to_networkx_bipartite_graph two_vehicles) ''http://example.com/vehicle/v2''
     ''bipartite'' = Some (I 0)"
  by code_simp

text \<open>
  Claim C2, evaluated on the same graph: the compatibility target \<open>v2\<close> is not in the
  side-1 set (no sensor model is declared at all), and the projection still has the edge
  between \<open>v1\<close> and \<open>v2\<close>.
\<close>

theorem C2_edge_outside_sensors:
  "objects two_vehicles v1 (EX_ns ''compatibleWithModel'') = [v2] \<and>
   py_set (subjects two_vehicles RDF_type (EX_ns ''SensorModel'')) = [] \<and>
   has_edge (to_networkx_bipartite_graph two_vehicles) (str v1) (str v2)"
  by code_simp

text \<open>
  Claim C3. The entity projector returns a graph (\<open>qname\<close> returning), and in its node
  list the subject and the object of every triple, if a URI reference, occur exactly
  once; no identifier is the key of two nodes.
\<close>

theorem C3_node_completeness:
  assumes "qname_returns g" and "(s, p, ob) \<in> set (triples g)"
  shows "\<exists>G. to_networkx_entity_graph g = Inr G \<and>
           (is_URIRef s \<longrightarrow> count_list (nodes G) (str s) = 1) \<and>
           (is_URIRef ob \<longrightarrow> count_list (nodes G) (str ob) = 1) \<and>
           distinct (nodes G)"
proof -
  from assms(1) obtain G where G: "to_networkx_entity_graph g = Inr G"
    by (blast dest: entity_graph_returns)
  have n: "nodes G = map str (collect_uris (triples g) [])"
    using G by (rule entity_graph_nodes)
  have d: "distinct (nodes G)" by (simp add: n distinct_str_collect_uris)
  have "is_URIRef s \<Longrightarrow> s \<in> uri_terms (triples g)" "is_URIRef ob \<Longrightarrow> ob \<in> uri_terms (triples g)"
    using assms(2) by (auto simp: uri_terms_def)
  then have "is_URIRef s \<Longrightarrow> str s \<in> set (nodes G)" "is_URIRef ob \<Longrightarrow> str ob \<in> set (nodes G)"
    by (simp_all add: n set_collect_uris)
  with d G show ?thesis by (simp add: count_list_distinct)
qed

theorem C3_node_completeness_witness:
  "case to_networkx_entity_graph scenario_A of
     Inl e \<Rightarrow> False
   | Inr G \<Rightarrow> count_list (nodes G) ''http://example.com/vehicle/v1'' = 1 \<and>
              count_list (nodes G) ''http://example.com/sensor/s1'' = 1 \<and> distinct (nodes G)"
proof -
  have q: "qname_returns scenario_A" by code_simp
  have t: "(v1, EX_ns ''compatibleWithModel'', s1) \<in> set (triples scenario_A)"
    by (simp add: scenario_A_def mk_graph_def)
  from C3_node_completeness[OF q t] show ?thesis
    by (auto simp: v1_def s1_def)
qed

text \<open>
  Claim C4. In the entity projection (which is returned, \<open>qname\<close> returning) and in the
  bipartite projection, both endpoints of every edge are nodes of the same graph.
\<close>

theorem C4_edge_soundness:
  "(qname_returns g \<longrightarrow>
      (\<exists>G. to_networkx_entity_graph g = Inr G \<and>
         (\<forall>(u, v, d) \<in> set (edges G). u \<in> set (nodes G) \<and> v \<in> set (nodes G)))) \<and>
   (\<forall>(u, v, d) \<in> set (edges (to_networkx_bipartite_graph g)).
      u \<in> set (nodes (to_networkx_bipartite_graph g)) \<and>
      v \<in> set (nodes (to_networkx_bipartite_graph g)))"
proof (intro conjI impI)
  assume "qname_returns g"
  then obtain G where G: "to_networkx_entity_graph g = Inr G"
    by (blast dest: entity_graph_returns)
  from nx_ok_edges_nodes[OF entity_graph_ok(1)[OF G]] G
  show "\<exists>G. to_networkx_entity_graph g = Inr G \<and>
         (\<forall>(u, v, d) \<in> set (edges G). u \<in> set (nodes G) \<and> v \<in> set (nodes G))"
    by blast
next
  from nx_ok_edges_nodes[OF nx_ok_bipartite]
  show "\<forall>(u, v, d) \<in> set (edges (to_networkx_bipartite_graph g)).
      u \<in> set (nodes (to_networkx_bipartite_graph g)) \<and>
      v \<in> set (nodes (to_networkx_bipartite_graph g))"
    by blast
qed

theorem C4_edge_soundness_witness:
  "(case to_networkx_entity_graph scenario_A of
      Inl e \<Rightarrow> False
    | Inr G \<Rightarrow> length (edges G) = 3 \<and>
        set (map fst (edges G)) \<union> set (map (fst \<circ> snd) (edges G)) \<subseteq> set (nodes G)) \<and>
   length (edges (to_networkx_bipartite_graph scenario_A)) = 1 \<and>
   set (map fst (edges (to_networkx_bipartite_graph scenario_A))) \<union>
     set (map (fst \<circ> snd) (edges (to_networkx_bipartite_graph scenario_A)))
     \<subseteq> set (nodes (to_networkx_bipartite_graph scenario_A))"
proof -
  have q: "qname_returns scenario_A" by code_simp
  have l3: "case to_networkx_entity_graph scenario_A of
      Inl e \<Rightarrow> False | Inr G \<Rightarrow> length (edges G) = 3"
    by code_simp
  have l1: "length (edges (to_networkx_bipartite_graph scenario_A)) = 1" by code_simp
  from C4_edge_soundness[of scenario_A] q l3 l1 show ?thesis
    by (auto split: sum.splits)
qed

text \<open>
  Claim C5 (Scenario C). For a graph whose triples are \<open>(a, p1, b)\<close> and \<open>(a, p2, b)\<close>, in
  this order of enumeration, with \<open>a\<close> and \<open>b\<close> URI references and \<open>qname\<close> returning for
  both predicates: the entity projection has exactly one edge, between \<open>a\<close> and \<open>b\<close>, with
  the attributes of the predicate processed last, and the export has exactly two edge
  rows for the pair, one per triple.
\<close>

theorem C5_parallel_predicates:
  assumes "triples g = [(URIRef a, p1, URIRef b), (URIRef a, p2, URIRef b)]"
    and "p1 \<noteq> p2" and "qname g p1 = Inr q1" and "qname g p2 = Inr q2"
  shows "\<exists>G nodes_data u v.
           to_networkx_entity_graph g = Inr G \<and>
           edges G = [(u, v, [(''label'', S q2), (''uri'', S (str p2))])] \<and>
           (u = a \<and> v = b \<or> u = b \<and> v = a) \<and>
           export_to_csv g = Inr (nodes_data,
             [\<lparr>start_uri = a, end_uri = b,
               e_type = upper (replace_char CHR '':'' CHR ''_'' q1), e_uri = str p1\<rparr>,
              \<lparr>start_uri = a, end_uri = b,
               e_type = upper (replace_char CHR '':'' CHR ''_'' q2), e_uri = str p2\<rparr>])"
proof -
  have ex: "\<exists>nodes_data. export_to_csv g = Inr (nodes_data,
             [\<lparr>start_uri = a, end_uri = b,
               e_type = upper (replace_char CHR '':'' CHR ''_'' q1), e_uri = str p1\<rparr>,
              \<lparr>start_uri = a, end_uri = b,
               e_type = upper (replace_char CHR '':'' CHR ''_'' q2), e_uri = str p2\<rparr>])"
    using assms by (simp add: export_to_csv_def Let_def)
  have en: "\<exists>G. to_networkx_entity_graph g = Inr G \<and>
           edges G = [(a, b, [(''label'', S q2), (''uri'', S (str p2))])]"
  proof (cases "a = b")
    case True
    then show ?thesis
      using assms
      by (simp add: to_networkx_entity_graph_def set_add_def entity_node_def add_node_def
          add_edge_def ensure_node_def nbrs_def dict_update_def nx_empty_def edges_def Let_def)
  next
    case False
    then show ?thesis
      using assms
      by (simp add: to_networkx_entity_graph_def set_add_def entity_node_def add_node_def
          add_edge_def ensure_node_def nbrs_def dict_update_def nx_empty_def edges_def Let_def)
  qed
  from ex en show ?thesis by blast
qed

theorem C5_parallel_predicates_witness:
  "\<exists>G nodes_data u v.
     to_networkx_entity_graph scenario_C = Inr G \<and>
     edges G = [(u, v, [(''label'', S ''ex:testedWith''),
                        (''uri'', S ''http://example.com/ontology/testedWith'')])] \<and>
     export_to_csv scenario_C = Inr (nodes_data,
       [\<lparr>start_uri = ''http://example.com/vehicle/v1'', end_uri = ''http://example.com/sensor/s1'',
         e_type = ''EX_COMPATIBLEWITHMODEL'',
         e_uri = ''http://example.com/ontology/compatibleWithModel''\<rparr>,
        \<lparr>start_uri = ''http://example.com/vehicle/v1'', end_uri = ''http://example.com/sensor/s1'',
         e_type = ''EX_TESTEDWITH'',
         e_uri = ''http://example.com/ontology/testedWith''\<rparr>])"
proof -
  have t: "triples scenario_C =
      [(URIRef ''http://example.com/vehicle/v1'', EX_ns ''compatibleWithModel'',
        URIRef ''http://example.com/sensor/s1''),
       (URIRef ''http://example.com/vehicle/v1'', EX_ns ''testedWith'',
        URIRef ''http://example.com/sensor/s1'')]"
    by (simp add: scenario_C_def mk_graph_def v1_def s1_def)
  have ne: "EX_ns ''compatibleWithModel'' \<noteq> EX_ns ''testedWith''"
    by (simp add: EX_ns_def)
  have q1: "qname scenario_C (EX_ns ''compatibleWithModel'') = Inr ''ex:compatibleWithModel''"
    by code_simp
  have q2: "qname scenario_C (EX_ns ''testedWith'') = Inr ''ex:testedWith''"
    by code_simp
  have u1: "upper (replace_char CHR '':'' CHR ''_'' ''ex:compatibleWithModel'') = ''EX_COMPATIBLEWITHMODEL''"
    by code_simp
  have u2: "upper (replace_char CHR '':'' CHR ''_'' ''ex:testedWith'') = ''EX_TESTEDWITH''"
    by code_simp
  have s: "str (EX_ns ''compatibleWithModel'') = ''http://example.com/ontology/compatibleWithModel''"
    "str (EX_ns ''testedWith'') = ''http://example.com/ontology/testedWith''"
    by (simp_all add: EX_ns_def)
  from C5_parallel_predicates[OF t ne q1 q2] show ?thesis
    unfolding u1 u2 s by blast
qed

text \<open>
  Claim C6 states that for a resource with no \<open>rdfs:label\<close> triple and no matching
  namespace binding the label resolver of the projectors and of the exporter returns
  the part of the identifier after the last \<open>/\<close>. The projectors' resolver
  \<open>nx_convert.get_label\<close> does not: in Scenario B it labels the location
  \<open><http://other.org/places/berlin>\<close>, not \<open>berlin\<close>.
\<close>

theorem C6_counterexample:
  "objects scenario_B berlin RDFS_label = [] \<and>
   n3 scenario_B berlin = Inr (''<'' @ str berlin @ ''>'') \<and>
   get_label scenario_B berlin = ''<http://other.org/places/berlin>'' \<and>
   last (split_sep CHR ''/'' (str berlin)) = ''berlin'' \<and>
   get_label scenario_B berlin \<noteq> last (split_sep CHR ''/'' (str berlin))"
  by code_simp

text \<open>
  Claim C6, amended. For a URI reference with no \<open>rdfs:label\<close> triple that \<open>n3\<close> renders
  as \<open><uri>\<close> (no namespace binding matches): the exporter's resolver
  \<open>rdf_utils.get_node_label\<close> returns the last piece of the identifier split at \<open>/\<close>,
  which is the part after its last \<open>/\<close>; the projectors' resolver
  \<open>nx_convert.get_label\<close> returns the rendering \<open><uri>\<close> itself.
\<close>

theorem C6_label_fallback:
  assumes "objects g (URIRef u) RDFS_label = []"
    and "n3 g (URIRef u) = Inr (''<'' @ u @ ''>'')"
  shows "get_node_label g (URIRef u) = last (split_sep CHR ''/'' u) \<and>
         last (split_sep CHR ''/'' u) = rev (takeWhile (\<lambda>c. c \<noteq> CHR ''/'') (rev u)) \<and>
         get_label g (URIRef u) = ''<'' @ u @ ''>''"
  using assms
  by (simp add: get_node_label_def get_label_def graph_value_def startswith_lt_def last_split_sep)

theorem C6_label_fallback_witness:
  "get_node_label scenario_B berlin = ''berlin'' \<and>
   get_label scenario_B berlin = ''<http://other.org/places/berlin>''"
proof -
  have 1: "objects scenario_B (URIRef ''http://other.org/places/berlin'') RDFS_label = []"
    by code_simp
  have 2: "n3 scenario_B (URIRef ''http://other.org/places/berlin'') =
             Inr (''<'' @ ''http://other.org/places/berlin'' @ ''>'')"
    by code_simp
  have 3: "rev (takeWhile (\<lambda>c. c \<noteq> CHR ''/'') (rev ''http://other.org/places/berlin'')) = ''berlin''"
    by simp
  from C6_label_fallback[OF 1 2] 3 show ?thesis
    by (simp add: berlin_def)
qed

text \<open>
  Claim C7. The exporter returns (\<open>qname\<close> returning), and the type of the node row of a
  resource is the resolved type label, replaced by \<open>Concept\<close> exactly when the resolution
  yields \<open>Resource\<close> and the resource is the subject of no triple. So the row of a
  resource with no declared \<open>rdf:type\<close> has the type \<open>Resource\<close> if the resource is the
  subject of some triple, and has the type \<open>Concept\<close> if and only if the resolution
  yields the sentinel and the resource is never a subject.
\<close>

theorem C7_untyped_node_rows:
  assumes "qname_returns g"
  shows "\<exists>nodes_data edges_data.
           export_to_csv g = Inr (nodes_data, edges_data) \<and>
           (\<forall>r \<in> set nodes_data. \<forall>u. is_URIRef u \<and> n_uri r = str u \<longrightarrow>
              n_type r = (if get_type_label g u = ''Resource'' \<and> \<not> has_subject g u
                          then ''Concept'' else get_type_label g u) \<and>
              (objects g u RDF_type = [] \<longrightarrow>
                 (has_subject g u \<longrightarrow> n_type r = ''Resource'') \<and>
                 (n_type r = ''Concept'' \<longleftrightarrow>
                    get_type_label g u = ''Resource'' \<and> \<not> has_subject g u)))"
proof -
  from assms obtain nodes_data edges_data
    where e: "export_to_csv g = Inr (nodes_data, edges_data)"
    by (blast dest: export_returns)
  have "n_type r = (if get_type_label g u = ''Resource'' \<and> \<not> has_subject g u
                    then ''Concept'' else get_type_label g u) \<and>
        (objects g u RDF_type = [] \<longrightarrow>
           (has_subject g u \<longrightarrow> n_type r = ''Resource'') \<and>
           (n_type r = ''Concept'' \<longleftrightarrow> get_type_label g u = ''Resource'' \<and> \<not> has_subject g u))"
    if r: "r \<in> set nodes_data" and u: "is_URIRef u" "n_uri r = str u" for r u
  proof -
    from export_node_rows[OF e] r
    obtain t where t: "t \<in> set (collect_uris (triples g) [])"
      and rt: "r = \<lparr>n_uri = str t, n_label = get_node_label g t,
                   n_type = (if get_type_label g t = ''Resource'' \<and> \<not> has_subject g t
                             then ''Concept'' else get_type_label g t)\<rparr>"
      by auto
    from t have "is_URIRef t" by (rule collect_uris_URIRef)
    with u rt have "t = u" by (auto intro: str_URIRef_inj)
    with rt show ?thesis by (auto simp: no_type_Resource)
  qed
  with e show ?thesis by blast
qed

theorem C7_untyped_node_rows_witness:
  "case export_to_csv scenario_B of
     Inl e \<Rightarrow> False
   | Inr (nodes_data, edges_data) \<Rightarrow>
       map n_uri nodes_data = [''http://example.com/sensor/s1'', ''http://other.org/places/berlin''] \<and>
       map n_type nodes_data = [''Resource'', ''Concept'']"
proof -
  have q: "qname_returns scenario_B" by code_simp
  from C7_untyped_node_rows[OF q] obtain nd ed
    where e: "export_to_csv scenario_B = Inr (nd, ed)"
      and c: "\<And>r u. r \<in> set nd \<Longrightarrow> is_URIRef u \<Longrightarrow> n_uri r = str u \<Longrightarrow>
              (objects scenario_B u RDF_type = [] \<longrightarrow>
                 (has_subject scenario_B u \<longrightarrow> n_type r = ''Resource'') \<and>
                 (n_type r = ''Concept'' \<longleftrightarrow>
                    get_type_label scenario_B u = ''Resource'' \<and> \<not> has_subject scenario_B u))"
    by blast
  have "case export_to_csv scenario_B of
     Inl e \<Rightarrow> False
   | Inr (nodes_data, edges_data) \<Rightarrow>
       map n_uri nodes_data = [''http://example.com/sensor/s1'', ''http://other.org/places/berlin'']"
    by code_simp
  with e have u: "map n_uri nd = [''http://example.com/sensor/s1'', ''http://other.org/places/berlin'']"
    by simp
  then obtain r1 r2 where nd: "nd = [r1, r2]"
    and u1: "n_uri r1 = str s1" and u2: "n_uri r2 = str berlin"
    by (auto simp: s1_def berlin_def map_eq_Cons_conv)
  have nt: "objects scenario_B s1 RDF_type = []" "objects scenario_B berlin RDF_type = []"
    by code_simp+
  have sb: "has_subject scenario_B s1" "\<not> has_subject scenario_B berlin"
    by code_simp+
  have ur: "is_URIRef s1" "is_URIRef berlin" by (simp_all add: s1_def berlin_def)
  have m: "r1 \<in> set nd" "r2 \<in> set nd" by (simp_all add: nd)
  from c[OF m(1) ur(1) u1] nt(1) sb(1)
  have "n_type r1 = ''Resource''" by blast
  moreover from c[OF m(2) ur(2) u2] nt(2) sb(2) no_type_Resource[OF nt(2)]
  have "n_type r2 = ''Concept''" by blast
  ultimately show ?thesis using e u nd by simp
qed

text \<open>
  Claim C8. The exporter returns (\<open>qname\<close> returning), and every edge row comes from a
  triple between two URI references; its relation tag is the predicate's qualified name
  with \<open>:\<close> replaced by \<open>_\<close> and then upper-cased, and its \<open>uri\<close> field is the
  predicate's identifier unchanged.
\<close>

theorem C8_relation_tag:
  assumes "qname_returns g"
  shows "\<exists>nodes_data edges_data.
           export_to_csv g = Inr (nodes_data, edges_data) \<and>
           (\<forall>r \<in> set edges_data.
              \<exists>s p ob q. (s, p, ob) \<in> set (triples g) \<and> is_URIRef s \<and> is_URIRef ob \<and>
                qname g p = Inr q \<and>
                e_type r = upper (replace_char CHR '':'' CHR ''_'' q) \<and>
                e_uri r = str p \<and> start_uri r = str s \<and> end_uri r = str ob)"
proof -
  from assms obtain nodes_data edges_data
    where e: "export_to_csv g = Inr (nodes_data, edges_data)"
    by (blast dest: export_returns)
  then have er: "edge_records g (triples g) [] = Inr edges_data" by (rule export_edge_rows)
  have "\<exists>s p ob q. (s, p, ob) \<in> set (triples g) \<and> is_URIRef s \<and> is_URIRef ob \<and>
                qname g p = Inr q \<and>
                e_type r = upper (replace_char CHR '':'' CHR ''_'' q) \<and>
                e_uri r = str p \<and> start_uri r = str s \<and> end_uri r = str ob"
    if "r \<in> set edges_data" for r
    using edge_records_rows[OF er that] by fastforce
  with e show ?thesis by blast
qed

theorem C8_relation_tag_witness:
  "case export_to_csv scenario_B of
     Inl e \<Rightarrow> False
   | Inr (nodes_data, edges_data) \<Rightarrow>
       map e_type edges_data = [''EX_LOCATEDIN''] \<and>
       map e_uri edges_data = [''http://example.com/ontology/locatedIn'']"
proof -
  have q0: "qname_returns scenario_B" by code_simp
  from C8_relation_tag[OF q0] obtain nd ed
    where e: "export_to_csv scenario_B = Inr (nd, ed)"
      and c: "\<And>r. r \<in> set ed \<Longrightarrow>
              \<exists>s p ob q. (s, p, ob) \<in> set (triples scenario_B) \<and>
                qname scenario_B p = Inr q \<and>
                e_type r = upper (replace_char CHR '':'' CHR ''_'' q) \<and> e_uri r = str p"
    by blast
  have "case export_to_csv scenario_B of
     Inl e \<Rightarrow> False | Inr (nodes_data, edges_data) \<Rightarrow> length edges_data = 1"
    by code_simp
  with e obtain r where ed: "ed = [r]" by (auto simp: length_Suc_conv)
  from c[of r] ed
  obtain s p ob q where t: "(s, p, ob) \<in> set (triples scenario_B)"
    and q: "qname scenario_B p = Inr q"
    and r: "e_type r = upper (replace_char CHR '':'' CHR ''_'' q)" "e_uri r = str p"
    by auto
  from t have p: "p = EX_ns ''locatedIn''" by (simp add: scenario_B_def mk_graph_def)
  have "qname scenario_B (EX_ns ''locatedIn'') = Inr ''ex:locatedIn''" by code_simp
  with q p have "q = ''ex:locatedIn''" by simp
  moreover have "upper (replace_char CHR '':'' CHR ''_'' ''ex:locatedIn'') = ''EX_LOCATEDIN''"
    by code_simp
  ultimately show ?thesis using e ed r p by (simp add: EX_ns_def)
qed

text \<open>
  Claim C9. On an empty triple set the entity projector, the bipartite projector and the
  exporter all return without an exception: the projectors return the graph with no
  node and no edge, the exporter returns no node row and no edge row.
\<close>

theorem C9_empty_triple_set:
  assumes "triples g = []"
  shows "to_networkx_entity_graph g = Inr nx_empty \<and>
         to_networkx_bipartite_graph g = nx_empty \<and>
         export_to_csv g = Inr ([], []) \<and>
         nodes nx_empty = [] \<and> edges nx_empty = []"
  using assms
  by (simp add: to_networkx_entity_graph_def to_networkx_bipartite_graph_def export_to_csv_def
      subjects_def py_set_def nodes_def edges_def nx_empty_def)

theorem C9_empty_triple_set_witness:
  "to_networkx_entity_graph (mk_graph []) = Inr nx_empty \<and>
   to_networkx_bipartite_graph (mk_graph []) = nx_empty \<and>
   export_to_csv (mk_graph []) = Inr ([], [])"
  using C9_empty_triple_set[of "mk_graph []"] by (simp add: mk_graph_def)

text \<open>
  Claim C10. The entity projector and the exporter return (\<open>qname\<close> returning), and: the
  node list of the entity graph and the \<open>uri\<close> column of the node rows are the strings of
  the collected terms, each of which is a URI reference (so no blank node) in subject or
  object position; every edge of the entity graph and every edge row comes from a triple
  whose subject and object are both URI references. A triple with a blank node as
  subject or object therefore adds no node or node row for that position, and no edge or
  edge row.
\<close>

theorem C10_blank_nodes_excluded:
  assumes "qname_returns g"
  shows "\<exists>G nodes_data edges_data.
           to_networkx_entity_graph g = Inr G \<and>
           export_to_csv g = Inr (nodes_data, edges_data) \<and>
           nodes G = map str (collect_uris (triples g) []) \<and>
           map n_uri nodes_data = map str (collect_uris (triples g) []) \<and>
           (\<forall>t \<in> set (collect_uris (triples g) []).
              is_URIRef t \<and> (\<forall>b. t \<noteq> BNode b) \<and>
              (\<exists>s p ob. (s, p, ob) \<in> set (triples g) \<and> (t = s \<or> t = ob))) \<and>
           (\<forall>(x, y, d) \<in> set (edges G).
              \<exists>s p ob. (s, p, ob) \<in> set (triples g) \<and> is_URIRef s \<and> is_URIRef ob \<and>
                (x = str s \<and> y = str ob \<or> x = str ob \<and> y = str s)) \<and>
           (\<forall>r \<in> set edges_data.
              \<exists>s p ob. (s, p, ob) \<in> set (triples g) \<and> is_URIRef s \<and> is_URIRef ob \<and>
                start_uri r = str s \<and> end_uri r = str ob)"
proof -
  from assms obtain G where G: "to_networkx_entity_graph g = Inr G"
    by (blast dest: entity_graph_returns)
  from assms obtain nodes_data edges_data
    where ex: "export_to_csv g = Inr (nodes_data, edges_data)"
    by (blast dest: export_returns)
  have a: "nodes G = map str (collect_uris (triples g) [])"
    using G by (rule entity_graph_nodes)
  have b: "map n_uri nodes_data = map str (collect_uris (triples g) [])"
    by (simp add: export_node_rows[OF ex] comp_def)
  have c: "is_URIRef t \<and> (\<forall>b. t \<noteq> BNode b) \<and>
            (\<exists>s p ob. (s, p, ob) \<in> set (triples g) \<and> (t = s \<or> t = ob))"
    if "t \<in> set (collect_uris (triples g) [])" for t
    using that by (auto simp: set_collect_uris uri_terms_def)
  have d: "\<exists>s p ob. (s, p, ob) \<in> set (triples g) \<and> is_URIRef s \<and> is_URIRef ob \<and>
              (x = str s \<and> y = str ob \<or> x = str ob \<and> y = str s)"
    if "(x, y, d) \<in> set (edges G)" for x y d
  proof -
    from entity_graph_ok(1)[OF G] that have "has_edge G x y"
      by (simp add: nx_ok_def edges_has_edge)
    then have "(x, y) \<in> uri_pairs (triples g) \<or> (y, x) \<in> uri_pairs (triples g)"
      by (simp add: entity_graph_ok(2)[OF G])
    then show ?thesis by (auto simp: uri_pairs_def)
  qed
  have e: "\<exists>s p ob. (s, p, ob) \<in> set (triples g) \<and> is_URIRef s \<and> is_URIRef ob \<and>
              start_uri r = str s \<and> end_uri r = str ob"
    if "r \<in> set edges_data" for r
    using edge_records_rows[OF export_edge_rows[OF ex] that] by fastforce
  from G ex a b c d e show ?thesis by blast
qed

theorem C10_blank_nodes_excluded_witness:
  "case (to_networkx_entity_graph with_blank, export_to_csv with_blank) of
     (Inr G, Inr (nodes_data, edges_data)) \<Rightarrow>
        nodes G = [''http://example.com/sensor/s1'', ''http://example.com/vehicle/v1''] \<and>
        map n_uri nodes_data = [''http://example.com/sensor/s1'', ''http://example.com/vehicle/v1''] \<and>
        length (edges G) = 1 \<and> length edges_data = 1
   | _ \<Rightarrow> False"
proof -
  have q: "qname_returns with_blank" by code_simp
  have l: "case (to_networkx_entity_graph with_blank, export_to_csv with_blank) of
     (Inr G, Inr (nodes_data, edges_data)) \<Rightarrow> length (edges G) = 1 \<and> length edges_data = 1
   | _ \<Rightarrow> False"
    by code_simp
  have c: "map str (collect_uris (triples with_blank) []) =
      [''http://example.com/sensor/s1'', ''http://example.com/vehicle/v1'']"
    by code_simp
  from C10_blank_nodes_excluded[OF q] obtain G nd ed
    where "to_networkx_entity_graph with_blank = Inr G"
      and "export_to_csv with_blank = Inr (nd, ed)"
      and "nodes G = map str (collect_uris (triples with_blank) [])"
      and "map n_uri nd = map str (collect_uris (triples with_blank) [])"
    by blast
  with l c show ?thesis by simp
qed

end
